theory Spec2Isabelle
  imports Main
begin

section \<open>The data model of \<open>src/hooks.ts\<close>\<close>

text \<open>
  The values the library moves around. It never looks inside an object, so an object is
  its reference (\<open>JRef\<close>, an address of the JavaScript heap): two values are equal here
  exactly when \<open>Object.is\<close> calls them the same. \<open>JUndefined\<close> is the "no value"
  sentinel of the specification; \<open>JNull\<close> is a value of its own. Numbers are only passed
  on, never computed with, so \<open>int\<close> stands for them.
\<close>

datatype jsval =
    JUndefined
  | JNull
  | JBool bool
  | JNum int
  | JStr string
  | JRef nat

text \<open>The keys of \<open>OpenAiGlobals\<close> (the type parameter \<open>K extends keyof OpenAiGlobals\<close>).\<close>

datatype key =
    Theme
  | UserAgent
  | Locale
  | MaxHeight
  | DisplayMode
  | SafeArea
  | ToolInput
  | ToolOutput
  | ToolResponseMetadata
  | WidgetState

text \<open>
  What a failing expression throws, and what a rejected promise carries: the \<open>TypeError\<close>
  the JavaScript runtime raises when a property of \<open>undefined\<close> is read or a value that
  is no function is called, or whatever the host's own code failed with.
\<close>

datatype error =
    TypeError
  | HostFailure jsval

text \<open>
  How a promise settles: \<open>Inr v\<close> is fulfilled with \<open>v\<close>, \<open>Inl e\<close> is rejected with \<open>e\<close>.
\<close>

type_synonym settled = "error + jsval"

text \<open>
  An object with the keys of \<open>OpenAiGlobals\<close> as properties: the bag inside
  \<open>window.openai\<close>, and the partial snapshot \<open>event.detail.globals\<close>. A property that
  was never set is \<open>None\<close>; reading it gives \<open>undefined\<close>, the same result as reading a
  property that holds \<open>undefined\<close>.
\<close>

type_synonym globals = "key \<rightharpoonup> jsval"

definition readProp :: "globals \<Rightarrow> key \<Rightarrow> jsval" where
  "readProp obj k = (case obj k of None \<Rightarrow> JUndefined | Some v \<Rightarrow> v)"

text \<open>
  \<open>window.openai\<close>, when the host has installed it: the bag and the method \<open>callTool\<close>.
  The method is the host's code, so it is a parameter: given the name, the arguments and
  the bag it settles a promise and leaves the bag as the host chose. \<open>None\<close> is an object
  without that method.
\<close>

record host =
  bag :: globals
  callTool :: "(string \<Rightarrow> jsval \<Rightarrow> globals \<Rightarrow> settled \<times> globals) option"

text \<open>A \<open>SetGlobalsEvent\<close>: \<open>event.detail.globals\<close> is the partial snapshot.\<close>

record event =
  detail_globals :: globals

text \<open>
  The closure \<open>handleSetGlobal\<close> that one call of the subscribe function creates: its
  identity as a function object, and the variables it captured, \<open>key\<close> and the callback
  \<open>onChange\<close> (a function of the rendering layer, known by its identity).
\<close>

record closure =
  cl_id :: nat
  cl_key :: key
  cl_onChange :: nat

text \<open>An entry of the listener list of \<open>window\<close> for \<open>SET_GLOBALS_EVENT_TYPE\<close>.\<close>

record registration =
  callback :: closure
  isPassive :: bool

text \<open>What the library does to the outside, in order: the calls it makes.\<close>

datatype effect =
    OnChange nat
  | CallTool string jsval

text \<open>
  The page: \<open>window.openai\<close> (\<open>None\<close> when it is \<open>undefined\<close>), the listeners of
  \<open>window\<close> for \<open>SET_GLOBALS_EVENT_TYPE\<close> in the order they were added, the identity the
  next function object gets, and the calls made so far.
\<close>

record world =
  openai :: "host option"
  listeners :: "registration list"
  nextId :: nat
  trace :: "effect list"

section \<open>The event target\<close>

text \<open>
  \<open>window.addEventListener(type, callback, options)\<close> appends an entry unless the list
  already has one with this callback; \<open>window.removeEventListener(type, callback)\<close>
  removes the entry with this callback; \<open>window.dispatchEvent(event)\<close> calls the
  callbacks in order.
\<close>

fun addEventListener :: "closure \<Rightarrow> bool \<Rightarrow> registration list \<Rightarrow> registration list" where
  "addEventListener c p [] = [\<lparr>callback = c, isPassive = p\<rparr>]"
| "addEventListener c p (r # rs) =
     (if callback r = c then r # rs else r # addEventListener c p rs)"

fun removeEventListener :: "closure \<Rightarrow> registration list \<Rightarrow> registration list" where
  "removeEventListener c [] = []"
| "removeEventListener c (r # rs) =
     (if callback r = c then rs else r # removeEventListener c rs)"

section \<open>\<open>useOpenAiGlobal\<close>\<close>

text \<open>
  \<^verbatim>\<open>
  const handleSetGlobal = (event: SetGlobalsEvent) => {
    const value = event.detail.globals[key];
    if (value === undefined) {
      return;
    }
    onChange();
  };
  \<close>
\<close>

definition handleSetGlobal :: "closure \<Rightarrow> event \<Rightarrow> world \<Rightarrow> world" where
  "handleSetGlobal c ev w =
     (let v = readProp (detail_globals ev) (cl_key c) in
      if v = JUndefined then w
      else w\<lparr>trace := trace w @ [OnChange (cl_onChange c)]\<rparr>)"

definition dispatchEvent :: "event \<Rightarrow> world \<Rightarrow> world" where
  "dispatchEvent ev w = foldl (\<lambda>s r. handleSetGlobal (callback r) ev s) w (listeners w)"

text \<open>
  The first argument of \<open>useSyncExternalStore\<close>: create \<open>handleSetGlobal\<close>, add it as a
  passive listener, return the function that removes it. That function captures
  \<open>handleSetGlobal\<close> only, so the closure stands for it.
\<close>

definition subscribe :: "key \<Rightarrow> nat \<Rightarrow> world \<Rightarrow> closure \<times> world" where
  "subscribe k onCh w =
     (let c = \<lparr>cl_id = nextId w, cl_key = k, cl_onChange = onCh\<rparr> in
      (c, w\<lparr>listeners := addEventListener c True (listeners w),
             nextId := Suc (nextId w)\<rparr>))"

definition unsubscribe :: "closure \<Rightarrow> world \<Rightarrow> world" where
  "unsubscribe c w = w\<lparr>listeners := removeEventListener c (listeners w)\<rparr>"

text \<open>
  The second argument, \<^verbatim>\<open>() => window.openai[key]\<close>: a property read on
  \<open>window.openai\<close>, which throws when \<open>window.openai\<close> is \<open>undefined\<close>.
\<close>

definition getSnapshot :: "key \<Rightarrow> world \<Rightarrow> error + jsval" where
  "getSnapshot k w =
     (case openai w of
        None \<Rightarrow> Inl TypeError
      | Some h \<Rightarrow> Inr (readProp (bag h) k))"

section \<open>\<open>refreshTool\<close>\<close>

text \<open>
  \<^verbatim>\<open>
  export async function refreshTool(name: string, args: Record<string, unknown>) {
    await window.openai?.callTool(name, args);
  }
  \<close>
  The optional chain stops at an absent \<open>window.openai\<close>; a present one is asked for
  \<open>callTool\<close>, which is then called. The result is how the returned promise settles.
\<close>

definition refreshTool :: "string \<Rightarrow> jsval \<Rightarrow> world \<Rightarrow> settled \<times> world" where
  "refreshTool name args w =
     (case openai w of
        None \<Rightarrow> (Inr JUndefined, w)
      | Some h \<Rightarrow>
          (case callTool h of
             None \<Rightarrow> (Inl TypeError, w)
           | Some f \<Rightarrow>
               (let (r, b) = f name args (bag h);
                    w' = w\<lparr>openai := Some (h\<lparr>bag := b\<rparr>),
                           trace := trace w @ [CallTool name args]\<rparr>
                in case r of
                     Inl e \<Rightarrow> (Inl e, w')
                   | Inr payload \<Rightarrow> (Inr JUndefined, w'))))"

section \<open>Runs\<close>

text \<open>Announcements delivered one after the other.\<close>

definition deliverAll :: "event list \<Rightarrow> world \<Rightarrow> world" where
  "deliverAll evs w = foldl (\<lambda>s ev. dispatchEvent ev s) w evs"

text \<open>
  Every listener on the page was created before now, and no callback is listed twice.
\<close>

definition wellFormed :: "world \<Rightarrow> bool" where
  "wellFormed w =
     (distinct (map callback (listeners w)) \<and>
      list_all (\<lambda>r. cl_id (callback r) < nextId w) (listeners w))"

section \<open>Pages and announcements to run the code on\<close>

text \<open>
  A host whose \<open>callTool\<close> knows the tool \<open>search\<close>: it fulfils with a payload object
  and stores a new tool output; any other name is rejected.
\<close>

definition searchTool :: "string \<Rightarrow> jsval \<Rightarrow> globals \<Rightarrow> settled \<times> globals" where
  "searchTool name args b =
     (if name = ''search'' then (Inr (JRef 1), b(ToolOutput \<mapsto> JRef 2))
      else (Inl (HostFailure (JStr ''unknown tool'')), b))"

definition lightHost :: host where
  "lightHost = \<lparr>bag = [Theme \<mapsto> JStr ''light''], callTool = Some searchTool\<rparr>"

definition startPage :: world where
  "startPage = \<lparr>openai = Some lightHost, listeners = [], nextId = 0, trace = []\<rparr>"

text \<open>A page on which the host has installed nothing.\<close>

definition barePage :: world where
  "barePage = \<lparr>openai = None, listeners = [], nextId = 0, trace = []\<rparr>"

text \<open>A page whose \<open>window.openai\<close> holds a bag and no \<open>callTool\<close>.\<close>

definition bagOnlyHost :: host where
  "bagOnlyHost = \<lparr>bag = [Theme \<mapsto> JStr ''light''], callTool = None\<rparr>"

definition bagOnlyPage :: world where
  "bagOnlyPage = \<lparr>openai = Some bagOnlyHost, listeners = [], nextId = 0, trace = []\<rparr>"

definition themeDark :: event where
  "themeDark = \<lparr>detail_globals = [Theme \<mapsto> JStr ''dark'']\<rparr>"

definition localeFr :: event where
  "localeFr = \<lparr>detail_globals = [Locale \<mapsto> JStr ''fr-FR'']\<rparr>"

definition outputUnset :: event where
  "outputUnset = \<lparr>detail_globals = [ToolOutput \<mapsto> JUndefined]\<rparr>"

definition outputNull :: event where
  "outputNull = \<lparr>detail_globals = [ToolOutput \<mapsto> JNull]\<rparr>"



section \<open>What happens on a page while a component is mounted\<close>

text \<open>
  Other components subscribe and unsubscribe, and the host dispatches announcements, in
  any order.
\<close>

datatype action =
    Subscribe key nat
  | Unsubscribe closure
  | Dispatch event

fun perform :: "action \<Rightarrow> world \<Rightarrow> world" where
  "perform (Subscribe k onCh) w = snd (subscribe k onCh w)"
| "perform (Unsubscribe c) w = unsubscribe c w"
| "perform (Dispatch ev) w = dispatchEvent ev w"

definition run :: "action list \<Rightarrow> world \<Rightarrow> world" where
  "run acts w = foldl (\<lambda>s a. perform a s) w acts"

text \<open>An action that subscribes with the callback \<open>onCh\<close>.\<close>

fun subscribesWith :: "nat \<Rightarrow> action \<Rightarrow> bool" where
  "subscribesWith onCh (Subscribe k f) = (f = onCh)"
| "subscribesWith onCh (Unsubscribe c) = False"
| "subscribesWith onCh (Dispatch ev) = False"

section \<open>What a listener and a dispatch touch\<close>

text \<open>The listener changes nothing but the record of calls.\<close>

lemma handleSetGlobal_frame:
  "openai (handleSetGlobal c ev w) = openai w"
  "listeners (handleSetGlobal c ev w) = listeners w"
  "nextId (handleSetGlobal c ev w) = nextId w"
  by (simp_all add: handleSetGlobal_def Let_def)

lemma handleSetGlobal_trace:
  "trace (handleSetGlobal c ev w) =
     (if readProp (detail_globals ev) (cl_key c) = JUndefined then trace w
      else trace w @ [OnChange (cl_onChange c)])"
  by (simp add: handleSetGlobal_def Let_def)

lemma foldl_handle_frame:
  "openai (foldl (\<lambda>s r. handleSetGlobal (callback r) ev s) w rs) = openai w"
  "listeners (foldl (\<lambda>s r. handleSetGlobal (callback r) ev s) w rs) = listeners w"
  "nextId (foldl (\<lambda>s r. handleSetGlobal (callback r) ev s) w rs) = nextId w"
  by (induction rs arbitrary: w) (simp_all add: handleSetGlobal_frame)

lemma foldl_handle_trace:
  "\<exists>xs. \<forall>w. trace (foldl (\<lambda>s r. handleSetGlobal (callback r) ev s) w rs) = trace w @ xs"
proof (induction rs)
  case Nil
  show ?case by simp
next
  case (Cons r rs)
  then obtain xs where xs:
    "\<And>w. trace (foldl (\<lambda>s r. handleSetGlobal (callback r) ev s) w rs) = trace w @ xs"
    by blast
  show ?case
  proof (cases "readProp (detail_globals ev) (cl_key (callback r)) = JUndefined")
    case True
    then show ?thesis using xs by (simp add: handleSetGlobal_def)
  next
    case False
    have "\<forall>w. trace (foldl (\<lambda>s r. handleSetGlobal (callback r) ev s) w (r # rs)) =
            trace w @ (OnChange (cl_onChange (callback r)) # xs)"
      using False xs by (simp add: handleSetGlobal_trace)
    then show ?thesis by blast
  qed
qed

lemma dispatchEvent_frame:
  "openai (dispatchEvent ev w) = openai w"
  "listeners (dispatchEvent ev w) = listeners w"
  "nextId (dispatchEvent ev w) = nextId w"
  by (simp_all add: dispatchEvent_def foldl_handle_frame)

lemma dispatchEvent_trace:
  "\<exists>xs. \<forall>w. listeners w = rs \<longrightarrow> trace (dispatchEvent ev w) = trace w @ xs"
  using foldl_handle_trace [of ev rs] by (auto simp: dispatchEvent_def)


lemma deliverAll_Cons: "deliverAll (ev # evs) w = deliverAll evs (dispatchEvent ev w)"
  by (simp add: deliverAll_def)

lemma deliverAll_trace:
  "\<exists>xs. \<forall>w. listeners w = rs \<longrightarrow> trace (deliverAll evs w) = trace w @ xs"
proof (induction evs)
  case Nil
  show ?case by (simp add: deliverAll_def)
next
  case (Cons ev evs)
  then obtain xs where xs:
    "\<And>w. listeners w = rs \<Longrightarrow> trace (deliverAll evs w) = trace w @ xs" by blast
  obtain ys where ys:
    "\<And>w. listeners w = rs \<Longrightarrow> trace (dispatchEvent ev w) = trace w @ ys"
    using dispatchEvent_trace [of rs ev] by blast
  have "\<forall>w. listeners w = rs \<longrightarrow> trace (deliverAll (ev # evs) w) = trace w @ (ys @ xs)"
    by (simp add: deliverAll_Cons xs ys dispatchEvent_frame)
  then show ?case by blast
qed

section \<open>The listener list\<close>

lemma addEventListener_eq:
  "addEventListener c p rs =
     (if c \<in> callback ` set rs then rs else rs @ [\<lparr>callback = c, isPassive = p\<rparr>])"
  by (induction rs) auto

lemma removeEventListener_absent:
  "c \<notin> callback ` set rs \<Longrightarrow> removeEventListener c rs = rs"
  by (induction rs) auto

lemma removeEventListener_append:
  "c \<notin> callback ` set rs \<Longrightarrow> removeEventListener c (rs @ [\<lparr>callback = c, isPassive = p\<rparr>]) = rs"
  by (induction rs) auto

lemma removeEventListener_gone:
  "distinct (map callback rs) \<Longrightarrow> c \<notin> callback ` set (removeEventListener c rs)"
  by (induction rs) auto

lemma removeEventListener_subset:
  "r \<in> set (removeEventListener c rs) \<Longrightarrow> r \<in> set rs"
  by (induction rs) (auto split: if_splits)

lemma removeEventListener_distinct:
  "distinct (map callback rs) \<Longrightarrow> distinct (map callback (removeEventListener c rs))"
  by (induction rs) (auto dest: removeEventListener_subset)

lemma wellFormed_fresh:
  "wellFormed w \<Longrightarrow> cl_id c = nextId w \<Longrightarrow> c \<notin> callback ` set (listeners w)"
  by (auto simp: wellFormed_def list_all_iff)

section \<open>Well-formed pages\<close>

text \<open>
  A page without listeners is well formed, and every operation of the library keeps a
  page well formed.
\<close>

lemma wellFormed_no_listeners: "listeners w = [] \<Longrightarrow> wellFormed w"
  by (simp add: wellFormed_def)

lemma wellFormed_subscribe: "wellFormed w \<Longrightarrow> wellFormed (snd (subscribe k onCh w))"
  by (auto simp: wellFormed_def subscribe_def Let_def addEventListener_eq list_all_iff)

lemma wellFormed_unsubscribe: "wellFormed w \<Longrightarrow> wellFormed (unsubscribe c w)"
  by (auto simp: wellFormed_def unsubscribe_def list_all_iff removeEventListener_distinct
           dest: removeEventListener_subset)

lemma wellFormed_dispatchEvent: "wellFormed w \<Longrightarrow> wellFormed (dispatchEvent ev w)"
  by (simp add: wellFormed_def dispatchEvent_frame)

lemma unsubscribe_again:
  assumes "wellFormed w"
  shows "unsubscribe c (unsubscribe c w) = unsubscribe c w"
proof -
  have "distinct (map callback (listeners w))" using assms by (simp add: wellFormed_def)
  then have "c \<notin> callback ` set (removeEventListener c (listeners w))"
    by (rule removeEventListener_gone)
  then show ?thesis by (simp add: unsubscribe_def removeEventListener_absent)
qed

lemma wellFormed_refreshTool: "wellFormed w \<Longrightarrow> wellFormed (snd (refreshTool name args w))"
  by (auto simp: wellFormed_def refreshTool_def Let_def split: option.splits prod.splits sum.splits)

section \<open>Subscribing, then dispatching\<close>

lemma subscribe_world:
  assumes "subscribe k onCh w = (c, w1)"
  shows "c = \<lparr>cl_id = nextId w, cl_key = k, cl_onChange = onCh\<rparr>"
    and "w1 = w\<lparr>listeners := addEventListener c True (listeners w), nextId := Suc (nextId w)\<rparr>"
  using assms by (auto simp: subscribe_def Let_def)

lemma handleSetGlobal_skip:
  "readProp (detail_globals ev) (cl_key c) = JUndefined \<Longrightarrow> handleSetGlobal c ev s = s"
  by (simp add: handleSetGlobal_def)

lemma handleSetGlobal_fire:
  "readProp (detail_globals ev) (cl_key c) \<noteq> JUndefined \<Longrightarrow>
   handleSetGlobal c ev s = s\<lparr>trace := trace s @ [OnChange (cl_onChange c)]\<rparr>"
  by (simp add: handleSetGlobal_def)

lemma dispatchEvent_trace_cong:
  assumes "listeners w = listeners w'" and "trace w = trace w'"
  shows "trace (dispatchEvent ev w) = trace (dispatchEvent ev w')"
  using dispatchEvent_trace [of "listeners w" ev] assms by auto

lemma dispatchEvent_snoc:
  assumes "listeners w1 = listeners w @ [r]" and "trace w1 = trace w"
  shows "trace (dispatchEvent ev w1) =
         trace (handleSetGlobal (callback r) ev (dispatchEvent ev w))"
proof -
  obtain xs where xs:
    "\<And>s. trace (foldl (\<lambda>s r. handleSetGlobal (callback r) ev s) s (listeners w)) = trace s @ xs"
    using foldl_handle_trace [of ev "listeners w"] by blast
  have "trace (dispatchEvent ev w1) =
        trace (handleSetGlobal (callback r) ev
          (foldl (\<lambda>s r. handleSetGlobal (callback r) ev s) w1 (listeners w)))"
    by (simp add: dispatchEvent_def assms(1))
  also have "\<dots> = trace (handleSetGlobal (callback r) ev
          (foldl (\<lambda>s r. handleSetGlobal (callback r) ev s) w (listeners w)))"
    by (simp add: handleSetGlobal_trace xs assms(2))
  finally show ?thesis by (simp add: dispatchEvent_def)
qed

lemma subscribe_dispatch_known:
  assumes "subscribe k onCh w = (c, w1)" and "c \<in> callback ` set (listeners w)"
  shows "trace (dispatchEvent ev w1) = trace (dispatchEvent ev w)"
proof -
  have "listeners w1 = listeners w" and "trace w1 = trace w"
    using subscribe_world(2) [OF assms(1)] assms(2) by (simp_all add: addEventListener_eq)
  then show ?thesis by (rule dispatchEvent_trace_cong)
qed

lemma subscribe_dispatch_new:
  assumes "subscribe k onCh w = (c, w1)" and "c \<notin> callback ` set (listeners w)"
  shows "trace (dispatchEvent ev w1) = trace (handleSetGlobal c ev (dispatchEvent ev w))"
proof -
  have "listeners w1 = listeners w @ [\<lparr>callback = c, isPassive = True\<rparr>]"
    and "trace w1 = trace w"
    using subscribe_world(2) [OF assms(1)] assms(2) by (simp_all add: addEventListener_eq)
  from dispatchEvent_snoc [OF this] show ?thesis by simp
qed

lemma subscribe_dispatch_skip:
  assumes "subscribe k onCh w = (c, w1)"
    and "readProp (detail_globals ev) k = JUndefined"
  shows "trace (dispatchEvent ev w1) = trace (dispatchEvent ev w)"
proof (cases "c \<in> callback ` set (listeners w)")
  case True
  with assms(1) show ?thesis by (rule subscribe_dispatch_known)
next
  case False
  have "readProp (detail_globals ev) (cl_key c) = JUndefined"
    using subscribe_world(1) [OF assms(1)] assms(2) by simp
  then show ?thesis
    using subscribe_dispatch_new [OF assms(1) False, of ev] by (simp add: handleSetGlobal_skip)
qed

lemma getSnapshot_frame:
  "openai w' = openai w \<Longrightarrow> getSnapshot k w' = getSnapshot k w"
  by (simp add: getSnapshot_def)

section \<open>Runs of actions\<close>

text \<open>
  Actions keep a page well formed, never lower the identity counter, never write
  \<open>window.openai\<close>, and never list a closure that was created earlier and is off the
  list. A callback that no listed closure captured is not called, as long as nobody
  subscribes with it.
\<close>

lemma run_Nil: "run [] w = w"
  by (simp add: run_def)
lemma run_Cons: "run (a # acts) w = run acts (perform a w)"
  by (simp add: run_def)
lemma run_append: "run (xs @ ys) w = run ys (run xs w)"
  by (simp add: run_def)

lemma perform_wellFormed: "wellFormed w \<Longrightarrow> wellFormed (perform a w)"
  by (cases a) (simp_all add: wellFormed_subscribe wellFormed_unsubscribe wellFormed_dispatchEvent)

lemma run_wellFormed: "wellFormed w \<Longrightarrow> wellFormed (run acts w)"
  by (induction acts arbitrary: w) (simp_all add: run_Nil run_Cons perform_wellFormed)

lemma perform_nextId: "nextId w \<le> nextId (perform a w)"
  by (cases a) (simp_all add: subscribe_def Let_def unsubscribe_def dispatchEvent_frame)

lemma perform_stays_out:
  assumes "cl_id c < nextId w" and "c \<notin> callback ` set (listeners w)"
  shows "c \<notin> callback ` set (listeners (perform a w))"
proof (cases a)
  case (Subscribe k f)
  then show ?thesis using assms
    by (auto simp: subscribe_def Let_def addEventListener_eq)
next
  case (Unsubscribe d)
  then show ?thesis using assms(2)
    by (auto simp: unsubscribe_def dest: removeEventListener_subset)
next
  case (Dispatch ev)
  then show ?thesis using assms(2) by (simp add: dispatchEvent_frame)
qed

lemma run_stays_out:
  assumes "cl_id c < nextId w" and "c \<notin> callback ` set (listeners w)"
  shows "c \<notin> callback ` set (listeners (run acts w))"
  using assms
proof (induction acts arbitrary: w)
  case Nil
  then show ?case by (simp add: run_Nil)
next
  case (Cons a acts)
  have "cl_id c < nextId (perform a w)"
    using Cons.prems(1) perform_nextId [of w a] by simp
  moreover have "c \<notin> callback ` set (listeners (perform a w))"
    using Cons.prems by (rule perform_stays_out)
  ultimately show ?case using Cons.IH by (simp add: run_Cons)
qed

lemma run_nextId: "nextId w \<le> nextId (run acts w)"
proof (induction acts arbitrary: w)
  case Nil
  show ?case by (simp add: run_Nil)
next
  case (Cons a acts)
  have "nextId w \<le> nextId (perform a w)" by (rule perform_nextId)
  also have "\<dots> \<le> nextId (run acts (perform a w))" by (rule Cons.IH)
  finally show ?case by (simp add: run_Cons)
qed



lemma removeEventListener_filter:
  "distinct (map callback rs) \<Longrightarrow>
   removeEventListener c rs = filter (\<lambda>r. callback r \<noteq> c) rs"
proof (induction rs)
  case Nil
  show ?case by simp
next
  case (Cons r rs)
  show ?case
  proof (cases "callback r = c")
    case True
    then have "c \<notin> callback ` set rs" using Cons.prems by auto
    then have "filter (\<lambda>r. callback r \<noteq> c) rs = rs" by (auto simp: filter_id_conv)
    then show ?thesis using True by simp
  next
    case False
    then show ?thesis using Cons by simp
  qed
qed

lemma foldl_handle_quiet:
  assumes "onCh \<notin> cl_onChange ` callback ` set rs"
  shows "\<exists>xs. trace (foldl (\<lambda>s r. handleSetGlobal (callback r) ev s) s rs) = trace s @ xs \<and>
              OnChange onCh \<notin> set xs"
  using assms
proof (induction rs arbitrary: s)
  case Nil
  show ?case by simp
next
  case (Cons r rs)
  have r: "cl_onChange (callback r) \<noteq> onCh" using Cons.prems by auto
  have "onCh \<notin> cl_onChange ` callback ` set rs" using Cons.prems by auto
  from Cons.IH [OF this, of "handleSetGlobal (callback r) ev s"]
  obtain xs where xs:
    "trace (foldl (\<lambda>s r. handleSetGlobal (callback r) ev s) (handleSetGlobal (callback r) ev s) rs)
       = trace (handleSetGlobal (callback r) ev s) @ xs"
    "OnChange onCh \<notin> set xs"
    by blast
  show ?case
  proof (cases "readProp (detail_globals ev) (cl_key (callback r)) = JUndefined")
    case True
    then show ?thesis using xs by (simp add: handleSetGlobal_trace)
  next
    case False
    have "trace (foldl (\<lambda>s r. handleSetGlobal (callback r) ev s) s (r # rs))
            = trace s @ (OnChange (cl_onChange (callback r)) # xs)"
      using False xs(1) by (simp add: handleSetGlobal_trace)
    moreover have "OnChange onCh \<notin> set (OnChange (cl_onChange (callback r)) # xs)"
      using r xs(2) by simp
    ultimately show ?thesis by blast
  qed
qed

lemma perform_quiet:
  assumes "onCh \<notin> cl_onChange ` callback ` set (listeners s)"
    and "\<not> subscribesWith onCh a"
  shows "onCh \<notin> cl_onChange ` callback ` set (listeners (perform a s)) \<and>
         (\<exists>xs. trace (perform a s) = trace s @ xs \<and> OnChange onCh \<notin> set xs)"
proof (cases a)
  case (Subscribe k f)
  then have "f \<noteq> onCh" using assms(2) by simp
  then show ?thesis using Subscribe assms(1)
    by (auto simp: subscribe_def Let_def addEventListener_eq)
next
  case (Unsubscribe d)
  then show ?thesis using assms(1)
    by (auto simp: unsubscribe_def dest: removeEventListener_subset)
next
  case (Dispatch ev)
  then show ?thesis
    using assms(1) foldl_handle_quiet [OF assms(1), of ev s]
    by (simp add: dispatchEvent_frame) (simp add: dispatchEvent_def)
qed

lemma run_quiet:
  assumes "onCh \<notin> cl_onChange ` callback ` set (listeners s)"
    and "\<not> list_ex (subscribesWith onCh) acts"
  shows "\<exists>xs. trace (run acts s) = trace s @ xs \<and> OnChange onCh \<notin> set xs"
  using assms
proof (induction acts arbitrary: s)
  case Nil
  show ?case by (simp add: run_Nil)
next
  case (Cons a acts)
  have a: "\<not> subscribesWith onCh a" and rest: "\<not> list_ex (subscribesWith onCh) acts"
    using Cons.prems(2) by simp_all
  from perform_quiet [OF Cons.prems(1) a]
  obtain xs where step: "onCh \<notin> cl_onChange ` callback ` set (listeners (perform a s))"
    "trace (perform a s) = trace s @ xs" "OnChange onCh \<notin> set xs"
    by blast
  from Cons.IH [OF step(1) rest]
  obtain ys where ys: "trace (run acts (perform a s)) = trace (perform a s) @ ys"
    "OnChange onCh \<notin> set ys"
    by blast
  have "trace (run (a # acts) s) = trace s @ (xs @ ys)"
    using step(2) ys(1) by (simp add: run_Cons)
  moreover have "OnChange onCh \<notin> set (xs @ ys)" using step(3) ys(2) by simp
  ultimately show ?case by blast
qed

lemma perform_only_mine:
  assumes "onCh \<notin> cl_onChange ` (callback ` set (listeners s) - {c})"
    and "\<not> subscribesWith onCh a"
  shows "onCh \<notin> cl_onChange ` (callback ` set (listeners (perform a s)) - {c})"
proof (cases a)
  case (Subscribe k f)
  then have "f \<noteq> onCh" using assms(2) by simp
  then show ?thesis using Subscribe assms(1)
    by (auto simp: subscribe_def Let_def addEventListener_eq)
next
  case (Unsubscribe d)
  then show ?thesis using assms(1)
    by (auto simp: unsubscribe_def dest: removeEventListener_subset)
next
  case (Dispatch ev)
  then show ?thesis using assms(1) by (simp add: dispatchEvent_frame)
qed

lemma run_only_mine:
  assumes "onCh \<notin> cl_onChange ` (callback ` set (listeners s) - {c})"
    and "\<not> list_ex (subscribesWith onCh) acts"
  shows "onCh \<notin> cl_onChange ` (callback ` set (listeners (run acts s)) - {c})"
  using assms
proof (induction acts arbitrary: s)
  case Nil
  then show ?case by (simp add: run_Nil)
next
  case (Cons a acts)
  have a: "\<not> subscribesWith onCh a" and rest: "\<not> list_ex (subscribesWith onCh) acts"
    using Cons.prems(2) by simp_all
  from perform_only_mine [OF Cons.prems(1) a] Cons.IH rest
  show ?case by (simp add: run_Cons)
qed

section \<open>The claims\<close>

text \<open>
  C1 (key isolation). Let \<open>k1\<close> and \<open>k2\<close> be distinct keys and let the partial snapshot
  of an announcement have an entry for \<open>k2\<close> only. The listener that \<open>subscribe k1\<close>
  installed does nothing when it is called with this announcement, in whatever state of
  the page; and dispatching the announcement on the page with this subscription makes
  exactly the calls it makes on the page without it, so no \<open>onChange\<close> is due to the
  subscriber on \<open>k1\<close>.
\<close>

theorem key_isolation:
  assumes "k1 \<noteq> k2" and "dom (detail_globals ev) = {k2}" and "subscribe k1 onCh w = (c, w1)"
  shows "handleSetGlobal c ev s = s \<and> trace (dispatchEvent ev w1) = trace (dispatchEvent ev w)"
proof -
  have "k1 \<notin> dom (detail_globals ev)" using assms(1,2) by simp
  then have "detail_globals ev k1 = None" by blast
  then have skip: "readProp (detail_globals ev) k1 = JUndefined"
    by (simp add: readProp_def)
  then have "handleSetGlobal c ev s = s"
    using subscribe_world(1) [OF assms(3)] by (simp add: handleSetGlobal_skip)
  then show ?thesis using subscribe_dispatch_skip [OF assms(3) skip] by simp
qed

text \<open>
  The scenario "unrelated update": a subscriber on \<open>toolOutput\<close>, an announcement of the
  locale, no notification.
\<close>

theorem key_isolation_witness:
  "ToolOutput \<noteq> Locale \<and> dom (detail_globals localeFr) = {Locale} \<and>
   handleSetGlobal (fst (subscribe ToolOutput 7 startPage)) localeFr startPage = startPage \<and>
   trace (dispatchEvent localeFr (snd (subscribe ToolOutput 7 startPage))) = []"
proof -
  have a: "ToolOutput \<noteq> Locale" by simp
  have b: "dom (detail_globals localeFr) = {Locale}" by (simp add: localeFr_def)
  have c: "subscribe ToolOutput 7 startPage =
           (fst (subscribe ToolOutput 7 startPage), snd (subscribe ToolOutput 7 startPage))"
    by simp
  have d: "trace (dispatchEvent localeFr startPage) = []"
    by (simp add: dispatchEvent_def startPage_def)
  from key_isolation [OF a b c, of startPage] a b d show ?thesis by simp
qed

text \<open>
  C2 (no-value suppression). Let the partial snapshot of an announcement hold \<open>undefined\<close>
  under \<open>k\<close>, and let a read of \<open>k\<close> report "no value" on the page with a subscription
  on \<open>k\<close>. The subscription's listener does nothing when called with the announcement,
  the dispatch makes no call on account of the subscription, and a read of \<open>k\<close> after
  the dispatch still reports "no value".
\<close>

theorem no_value_suppression:
  assumes "detail_globals ev k = Some JUndefined" and "subscribe k onCh w = (c, w1)"
    and "getSnapshot k w1 = Inr JUndefined"
  shows "handleSetGlobal c ev s = s \<and>
         trace (dispatchEvent ev w1) = trace (dispatchEvent ev w) \<and>
         getSnapshot k (dispatchEvent ev w1) = Inr JUndefined"
proof -
  have skip: "readProp (detail_globals ev) k = JUndefined"
    using assms(1) by (simp add: readProp_def)
  then have "handleSetGlobal c ev s = s"
    using subscribe_world(1) [OF assms(2)] by (simp add: handleSetGlobal_skip)
  moreover have "getSnapshot k (dispatchEvent ev w1) = getSnapshot k w1"
    by (rule getSnapshot_frame) (rule dispatchEvent_frame(1))
  ultimately show ?thesis
    using subscribe_dispatch_skip [OF assms(2) skip] assms(3) by simp
qed

text \<open>A subscriber on \<open>toolOutput\<close> while the bag has no tool output yet.\<close>

theorem no_value_suppression_witness:
  "detail_globals outputUnset ToolOutput = Some JUndefined \<and>
   getSnapshot ToolOutput (snd (subscribe ToolOutput 7 startPage)) = Inr JUndefined \<and>
   trace (dispatchEvent outputUnset (snd (subscribe ToolOutput 7 startPage))) = [] \<and>
   getSnapshot ToolOutput (dispatchEvent outputUnset (snd (subscribe ToolOutput 7 startPage)))
     = Inr JUndefined"
proof -
  have a: "detail_globals outputUnset ToolOutput = Some JUndefined"
    by (simp add: outputUnset_def)
  have b: "subscribe ToolOutput 7 startPage =
           (fst (subscribe ToolOutput 7 startPage), snd (subscribe ToolOutput 7 startPage))"
    by simp
  have c: "getSnapshot ToolOutput (snd (subscribe ToolOutput 7 startPage)) = Inr JUndefined"
    by (simp add: getSnapshot_def subscribe_def Let_def startPage_def lightHost_def readProp_def)
  have d: "trace (dispatchEvent outputUnset startPage) = []"
    by (simp add: dispatchEvent_def startPage_def)
  from no_value_suppression [OF a b c] a c d show ?thesis by simp
qed

text \<open>
  C10 (only \<open>undefined\<close> is suppressed). Let the partial snapshot of an announcement
  hold \<open>null\<close> under \<open>k\<close>. The listener that \<open>subscribe k\<close> installed calls its
  \<open>onChange\<close> (once) when it is called with the announcement, and on a well-formed page
  the dispatch makes this one call on top of the calls it makes without the subscription.
\<close>

theorem null_is_a_value:
  assumes "wellFormed w" and "detail_globals ev k = Some JNull"
    and "subscribe k onCh w = (c, w1)"
  shows "handleSetGlobal c ev s = s\<lparr>trace := trace s @ [OnChange onCh]\<rparr> \<and>
         trace (dispatchEvent ev w1) = trace (dispatchEvent ev w) @ [OnChange onCh]"
proof -
  have c: "cl_id c = nextId w" "cl_key c = k" "cl_onChange c = onCh"
    using subscribe_world(1) [OF assms(3)] by simp_all
  have "readProp (detail_globals ev) (cl_key c) \<noteq> JUndefined"
    using assms(2) c(2) by (simp add: readProp_def)
  then have fire: "handleSetGlobal c ev s = s\<lparr>trace := trace s @ [OnChange onCh]\<rparr>" for s
    using c(3) by (simp add: handleSetGlobal_fire)
  have "c \<notin> callback ` set (listeners w)"
    using assms(1) c(1) by (rule wellFormed_fresh)
  from subscribe_dispatch_new [OF assms(3) this, of ev] fire show ?thesis by simp
qed

text \<open>The tool output cleared to \<open>null\<close>: the subscriber on \<open>toolOutput\<close> is notified.\<close>

theorem null_is_a_value_witness:
  "wellFormed startPage \<and> detail_globals outputNull ToolOutput = Some JNull \<and>
   trace (dispatchEvent outputNull (snd (subscribe ToolOutput 7 startPage))) = [OnChange 7]"
proof -
  have a: "wellFormed startPage" by (simp add: wellFormed_def startPage_def)
  have b: "detail_globals outputNull ToolOutput = Some JNull" by (simp add: outputNull_def)
  have c: "subscribe ToolOutput 7 startPage =
           (fst (subscribe ToolOutput 7 startPage), snd (subscribe ToolOutput 7 startPage))"
    by simp
  have d: "trace (dispatchEvent outputNull startPage) = []"
    by (simp add: dispatchEvent_def startPage_def)
  from null_is_a_value [OF a b c] a b d show ?thesis by simp
qed

text \<open>
  C8 (unsubscribe finality). On a well-formed page, subscribe to \<open>k\<close> with the callback
  \<open>onCh\<close>; let anything happen while subscribed (other components subscribe and
  unsubscribe, announcements are dispatched); then call the unsubscribe function once.
  The listener is off the list, and it is the only entry that left the list. Whatever
  happens afterwards, the listener is never on the list again, so no dispatch calls it.
  Seen from outside: when \<open>onCh\<close> belongs to this subscription alone (no listener had
  it before, nobody else subscribes with it), \<open>onCh\<close> is never called after the
  unsubscribe, whatever the later announcements contain.
\<close>

theorem unsubscribe_final:
  assumes "wellFormed w" and "subscribe k onCh w = (c, w1)"
    and "w2 = unsubscribe c (run during w1)"
  shows "c \<notin> callback ` set (listeners w2) \<and>
         listeners w2 = filter (\<lambda>r. callback r \<noteq> c) (listeners (run during w1)) \<and>
         c \<notin> callback ` set (listeners (run after w2)) \<and>
         (onCh \<notin> cl_onChange ` callback ` set (listeners w) \<and>
          \<not> list_ex (subscribesWith onCh) (during @ after) \<longrightarrow>
            OnChange onCh \<notin> set (drop (length (trace w2)) (trace (run after w2))))"
proof -
  have c: "c = \<lparr>cl_id = nextId w, cl_key = k, cl_onChange = onCh\<rparr>"
    and w1: "w1 = w\<lparr>listeners := addEventListener c True (listeners w), nextId := Suc (nextId w)\<rparr>"
    using subscribe_world [OF assms(2)] by simp_all
  have "wellFormed w1"
    using wellFormed_subscribe [OF assms(1), of k onCh] assms(2) by simp
  then have wf: "wellFormed (run during w1)" by (rule run_wellFormed)
  then have dist: "distinct (map callback (listeners (run during w1)))"
    by (simp add: wellFormed_def)
  have gone: "c \<notin> callback ` set (listeners w2)"
    unfolding assms(3) using removeEventListener_gone [OF dist, of c] by (simp add: unsubscribe_def)
  have only: "listeners w2 = filter (\<lambda>r. callback r \<noteq> c) (listeners (run during w1))"
    unfolding assms(3) using removeEventListener_filter [OF dist, of c] by (simp add: unsubscribe_def)
  have "cl_id c < nextId w1" using c w1 by simp
  also have "\<dots> \<le> nextId (run during w1)" by (rule run_nextId)
  also have "\<dots> = nextId w2" by (simp add: assms(3) unsubscribe_def)
  finally have old: "cl_id c < nextId w2" .
  from old gone have never: "c \<notin> callback ` set (listeners (run after w2))"
    by (rule run_stays_out)
  have quiet: "OnChange onCh \<notin> set (drop (length (trace w2)) (trace (run after w2)))"
    if fresh: "onCh \<notin> cl_onChange ` callback ` set (listeners w)"
      and others: "\<not> list_ex (subscribesWith onCh) (during @ after)"
  proof -
    have d: "\<not> list_ex (subscribesWith onCh) during" and a: "\<not> list_ex (subscribesWith onCh) after"
      using others by simp_all
    have "onCh \<notin> cl_onChange ` (callback ` set (listeners w1) - {c})"
      using fresh w1 by (auto simp: addEventListener_eq)
    then have "onCh \<notin> cl_onChange ` (callback ` set (listeners (run during w1)) - {c})"
      using d by (rule run_only_mine)
    then have "onCh \<notin> cl_onChange ` callback ` set (listeners w2)"
      using gone only by auto
    from run_quiet [OF this a]
    obtain xs where "trace (run after w2) = trace w2 @ xs" "OnChange onCh \<notin> set xs"
      by blast
    then show ?thesis by simp
  qed
  from gone only never quiet show ?thesis by blast
qed

text \<open>
  Two subscribers on \<open>theme\<close>, 7 then 8. Both are notified of the switch to dark; 7
  unsubscribes, 8 stays listed; of the later announcements only 8 is notified.
\<close>

theorem unsubscribe_final_witness:
  "wellFormed startPage \<and>
   listeners (unsubscribe (fst (subscribe Theme 7 startPage))
      (run [Subscribe Theme 8, Dispatch themeDark] (snd (subscribe Theme 7 startPage))))
     = [\<lparr>callback = \<lparr>cl_id = 1, cl_key = Theme, cl_onChange = 8\<rparr>, isPassive = True\<rparr>] \<and>
   trace (unsubscribe (fst (subscribe Theme 7 startPage))
      (run [Subscribe Theme 8, Dispatch themeDark] (snd (subscribe Theme 7 startPage))))
     = [OnChange 7, OnChange 8] \<and>
   trace (run [Dispatch themeDark, Subscribe Locale 9, Dispatch themeDark]
      (unsubscribe (fst (subscribe Theme 7 startPage))
        (run [Subscribe Theme 8, Dispatch themeDark] (snd (subscribe Theme 7 startPage)))))
     = [OnChange 7, OnChange 8, OnChange 8, OnChange 8] \<and>
   OnChange 7 \<notin> set (drop 2
     (trace (run [Dispatch themeDark, Subscribe Locale 9, Dispatch themeDark]
       (unsubscribe (fst (subscribe Theme 7 startPage))
         (run [Subscribe Theme 8, Dispatch themeDark] (snd (subscribe Theme 7 startPage)))))))"
proof -
  let ?c = "fst (subscribe Theme 7 startPage)"
  let ?w1 = "snd (subscribe Theme 7 startPage)"
  let ?w2 = "unsubscribe ?c (run [Subscribe Theme 8, Dispatch themeDark] ?w1)"
  let ?after = "[Dispatch themeDark, Subscribe Locale 9, Dispatch themeDark]"
  have a: "wellFormed startPage" by (simp add: wellFormed_def startPage_def)
  have b: "subscribe Theme 7 startPage = (?c, ?w1)" by simp
  have c: "?c = \<lparr>cl_id = 0, cl_key = Theme, cl_onChange = 7\<rparr>"
    by (simp add: subscribe_def Let_def startPage_def)
  have w1: "?w1 = \<lparr>openai = Some lightHost,
      listeners = [\<lparr>callback = \<lparr>cl_id = 0, cl_key = Theme, cl_onChange = 7\<rparr>, isPassive = True\<rparr>],
      nextId = 1, trace = []\<rparr>"
    by (simp add: subscribe_def Let_def startPage_def)
  have w2: "?w2 = \<lparr>openai = Some lightHost,
      listeners = [\<lparr>callback = \<lparr>cl_id = 1, cl_key = Theme, cl_onChange = 8\<rparr>, isPassive = True\<rparr>],
      nextId = 2, trace = [OnChange 7, OnChange 8]\<rparr>"
    unfolding c w1
    by (simp add: run_def subscribe_def Let_def unsubscribe_def dispatchEvent_def
        handleSetGlobal_def themeDark_def readProp_def)
  have end_trace: "trace (run ?after ?w2) = [OnChange 7, OnChange 8, OnChange 8, OnChange 8]"
    unfolding w2
    by (simp add: run_def subscribe_def Let_def dispatchEvent_def
        handleSetGlobal_def themeDark_def readProp_def)
  have fresh: "7 \<notin> cl_onChange ` callback ` set (listeners startPage)"
    by (simp add: startPage_def)
  have others: "\<not> list_ex (subscribesWith 7)
      ([Subscribe Theme 8, Dispatch themeDark] @ ?after)"
    by simp
  have len: "length (trace ?w2) = 2" by (simp add: w2)
  from unsubscribe_final [OF a b refl, of "[Subscribe Theme 8, Dispatch themeDark]" ?after]
    fresh others
  have "OnChange 7 \<notin> set (drop (length (trace ?w2)) (trace (run ?after ?w2)))"
    by blast
  then have quiet: "OnChange 7 \<notin> set (drop 2 (trace (run ?after ?w2)))"
    using len by simp
  have ls: "listeners ?w2
     = [\<lparr>callback = \<lparr>cl_id = 1, cl_key = Theme, cl_onChange = 8\<rparr>, isPassive = True\<rparr>]"
    by (simp add: w2)
  have tr: "trace ?w2 = [OnChange 7, OnChange 8]"
    by (simp add: w2)
  from a ls tr end_trace quiet show ?thesis by (intro conjI)
qed

text \<open>
  C9 (frame). Subscribing, the installed listener, a dispatch and unsubscribing leave
  \<open>window.openai\<close> as it was, so every key of the bag reads as before. The snapshot
  function is a read: it takes the page and returns a value, and has no page to return.
\<close>

theorem bag_frame:
  "openai (snd (subscribe k onCh w)) = openai w \<and>
   openai (handleSetGlobal c ev w) = openai w \<and>
   openai (dispatchEvent ev w) = openai w \<and>
   openai (unsubscribe c w) = openai w \<and>
   getSnapshot k' (snd (subscribe k onCh w)) = getSnapshot k' w \<and>
   getSnapshot k' (handleSetGlobal c ev w) = getSnapshot k' w \<and>
   getSnapshot k' (dispatchEvent ev w) = getSnapshot k' w \<and>
   getSnapshot k' (unsubscribe c w) = getSnapshot k' w"
proof -
  have a: "openai (snd (subscribe k onCh w)) = openai w"
    by (simp add: subscribe_def Let_def)
  have b: "openai (unsubscribe c w) = openai w"
    by (simp add: unsubscribe_def)
  note frames = a b handleSetGlobal_frame(1) [of c ev w] dispatchEvent_frame(1) [of ev w]
  show ?thesis
    using frames frames [THEN getSnapshot_frame, of k'] by simp
qed

text \<open>
  The announcement of a dark theme does not write the bag: the host does, and here it has
  not.
\<close>

theorem bag_frame_witness:
  "openai (dispatchEvent themeDark (snd (subscribe Theme 7 startPage))) = Some lightHost \<and>
   getSnapshot Theme (dispatchEvent themeDark (snd (subscribe Theme 7 startPage)))
     = Inr (JStr ''light'')"
proof -
  have a: "openai startPage = Some lightHost" by (simp add: startPage_def)
  have b: "getSnapshot Theme startPage = Inr (JStr ''light'')"
    by (simp add: getSnapshot_def startPage_def lightHost_def readProp_def)
  from bag_frame [of Theme 7 startPage "fst (subscribe Theme 7 startPage)" themeDark Theme]
    bag_frame [of Theme 7 "snd (subscribe Theme 7 startPage)" "fst (subscribe Theme 7 startPage)" themeDark Theme] a b
  show ?thesis by simp
qed



text \<open>
  C4 (reads never raise). On a page where \<open>window.openai\<close> is \<open>undefined\<close> the snapshot
  function does not return "no value": the property read throws a \<open>TypeError\<close>.
\<close>

theorem getSnapshot_absent_host: "getSnapshot Theme barePage = Inl TypeError"
  by (simp add: getSnapshot_def barePage_def)

text \<open>
  C6 (delegation, result void). With \<open>window.openai\<close> and its \<open>callTool\<close> installed,
  \<open>refreshTool name args\<close> calls \<open>callTool\<close> once with this name and these arguments,
  the bag is afterwards what the host's call left, and when the host fulfils with a
  payload the promise of \<open>refreshTool\<close> is fulfilled with \<open>undefined\<close>, whatever the payload.
\<close>

theorem refreshTool_delegates:
  assumes "openai w = Some h" and "callTool h = Some f" and "f name args (bag h) = (r, b)"
  shows "snd (refreshTool name args w) =
           w\<lparr>openai := Some (h\<lparr>bag := b\<rparr>), trace := trace w @ [CallTool name args]\<rparr> \<and>
         fst (refreshTool name args w) = (case r of Inl e \<Rightarrow> Inl e | Inr payload \<Rightarrow> Inr JUndefined)"
  using assms by (simp add: refreshTool_def split: sum.splits)

text \<open>The scenario "tool round trip", up to the call.\<close>

theorem refreshTool_delegates_witness:
  "openai startPage = Some lightHost \<and> callTool lightHost = Some searchTool \<and>
   searchTool ''search'' (JRef 0) (bag lightHost)
     = (Inr (JRef 1), [Theme \<mapsto> JStr ''light'', ToolOutput \<mapsto> JRef 2]) \<and>
   fst (refreshTool ''search'' (JRef 0) startPage) = Inr JUndefined \<and>
   trace (snd (refreshTool ''search'' (JRef 0) startPage)) = [CallTool ''search'' (JRef 0)]"
proof -
  have a: "openai startPage = Some lightHost" by (simp add: startPage_def)
  have b: "callTool lightHost = Some searchTool" by (simp add: lightHost_def)
  have c: "searchTool ''search'' (JRef 0) (bag lightHost)
     = (Inr (JRef 1), [Theme \<mapsto> JStr ''light'', ToolOutput \<mapsto> JRef 2])"
    by (simp add: searchTool_def lightHost_def)
  have d: "trace startPage = []" by (simp add: startPage_def)
  from refreshTool_delegates [OF a b c] a b c d show ?thesis by simp
qed

text \<open>
  C7 (delegated failure). When the host's \<open>callTool\<close> rejects with \<open>e\<close>, the promise of
  \<open>refreshTool\<close> is rejected with the same \<open>e\<close>, and \<open>callTool\<close> has been called once.
\<close>

theorem refreshTool_propagates:
  assumes "openai w = Some h" and "callTool h = Some f"
    and "f name args (bag h) = (Inl e, b)"
  shows "fst (refreshTool name args w) = Inl e \<and>
         trace (snd (refreshTool name args w)) = trace w @ [CallTool name args]"
  using assms by (simp add: refreshTool_def)

text \<open>The host rejects an unknown tool; the caller sees the host's own failure.\<close>

theorem refreshTool_propagates_witness:
  "openai startPage = Some lightHost \<and> callTool lightHost = Some searchTool \<and>
   fst (refreshTool ''x'' (JRef 0) startPage) = Inl (HostFailure (JStr ''unknown tool'')) \<and>
   trace (snd (refreshTool ''x'' (JRef 0) startPage)) = [CallTool ''x'' (JRef 0)]"
proof -
  have a: "openai startPage = Some lightHost" by (simp add: startPage_def)
  have b: "callTool lightHost = Some searchTool" by (simp add: lightHost_def)
  have c: "searchTool ''x'' (JRef 0) (bag lightHost)
     = (Inl (HostFailure (JStr ''unknown tool'')), bag lightHost)"
    by (simp add: searchTool_def)
  have d: "trace startPage = []" by (simp add: startPage_def)
  from refreshTool_propagates [OF a b c] a b d show ?thesis by simp
qed

text \<open>
  C3, as stated, fails where \<open>window.openai\<close> is installed without \<open>callTool\<close>: the call
  of a missing method throws, and the promise of \<open>refreshTool\<close> is rejected with a
  \<open>TypeError\<close>.
\<close>

theorem refreshTool_missing_method:
  "openai bagOnlyPage = Some bagOnlyHost \<and> callTool bagOnlyHost = None \<and>
   fst (refreshTool ''x'' (JRef 0) bagOnlyPage) = Inl TypeError"
  by (simp add: refreshTool_def bagOnlyPage_def bagOnlyHost_def)

text \<open>
  C3, amended. When \<open>window.openai\<close> is absent, \<open>refreshTool name args\<close> is fulfilled
  with \<open>undefined\<close>; when \<open>window.openai\<close> is installed without \<open>callTool\<close>, it is
  rejected with a \<open>TypeError\<close>. In both cases the page, and so the bag, is left as it
  was.
\<close>

theorem refreshTool_without_host:
  assumes "openai w = None \<or> (openai w = Some h \<and> callTool h = None)"
  shows "snd (refreshTool name args w) = w \<and>
         fst (refreshTool name args w) =
           (if openai w = None then Inr JUndefined else Inl TypeError)"
  using assms by (auto simp: refreshTool_def)

text \<open>
  The specification's \<open>invokeRemoteTool("x", {})\<close>, with no host installed and with a
  host that has no \<open>callTool\<close>.
\<close>

theorem refreshTool_without_host_witness:
  "openai barePage = None \<and>
   refreshTool ''x'' (JRef 0) barePage = (Inr JUndefined, barePage) \<and>
   openai bagOnlyPage = Some bagOnlyHost \<and> callTool bagOnlyHost = None \<and>
   refreshTool ''x'' (JRef 0) bagOnlyPage = (Inl TypeError, bagOnlyPage)"
proof -
  have a: "openai barePage = None" by (simp add: barePage_def)
  have b: "openai bagOnlyPage = Some bagOnlyHost" "callTool bagOnlyHost = None"
    by (simp_all add: bagOnlyPage_def bagOnlyHost_def)
  have "snd (refreshTool ''x'' (JRef 0) barePage) = barePage \<and>
        fst (refreshTool ''x'' (JRef 0) barePage) = Inr JUndefined"
    using refreshTool_without_host [of barePage bagOnlyHost "''x''" "JRef 0"] a by simp
  moreover have "snd (refreshTool ''x'' (JRef 0) bagOnlyPage) = bagOnlyPage \<and>
        fst (refreshTool ''x'' (JRef 0) bagOnlyPage) = Inl TypeError"
    using refreshTool_without_host [of bagOnlyPage bagOnlyHost "''x''" "JRef 0"] b by simp
  ultimately show ?thesis using a b by (simp add: prod_eq_iff)
qed

end
